theory Spec2Isabelle
  imports Complex_Main "HOL-Library.Sublist"
begin

section \<open>Data model of \<^verbatim>\<open>src/bifpn.py\<close>\<close>

text \<open>
  Python exceptions that the module can raise. \<open>RuntimeError\<close> stands for every error
  raised inside the tensor engine (a channel or size mismatch in a convolution, a pooling
  window larger than its input, \<^verbatim>\<open>torch.stack\<close> on tensors of different sizes).
\<close>

datatype error =
  AttributeError | IndexError | KeyError | StopIteration | ValueError | RuntimeError

text \<open>
  \<^verbatim>\<open>node_param\<close> (a dataclass). The selectors of its last two fields carry the prefix
  \<open>np_\<close>, because \<^verbatim>\<open>CombineLevels\<close> has attributes \<^verbatim>\<open>offsets\<close> and \<^verbatim>\<open>upsample\<close> too.
\<close>

datatype node_param =
  node_param (feat_level: int) (np_offsets: "int list") (np_upsample: bool)

definition NODE_PARAMS :: "node_param list" where
  "NODE_PARAMS =
    [ node_param 6 [3, 4] True,
      node_param 5 [2, 5] True,
      node_param 4 [1, 6] True,
      node_param 3 [0, 7] True,
      node_param 4 [1, 7, 8] False,
      node_param 5 [2, 6, 9] False,
      node_param 6 [3, 5, 10] False,
      node_param 7 [4, 11] False ]"

text \<open>
  The \<^verbatim>\<open>torch.nn\<close> modules the constructors build, as descriptors:
  \<open>Conv2d in_channels out_channels kernel_size padding groups bias\<close> (stride 1),
  \<open>MaxPool2d kernel_size padding stride\<close>, \<open>UpsamplingNearest2d scale_factor\<close>,
  \<open>BatchNorm2d num_features momentum eps\<close>, \<^verbatim>\<open>efficientnet.Swish\<close> and
  \<open>Sequential\<close>. Channel counts are naturals, and building a module never fails: what
  \<^verbatim>\<open>torch\<close> checks when a module is constructed is outside this development.
\<close>

datatype layer =
    Conv2d nat nat nat nat nat bool
  | MaxPool2d nat nat nat
  | UpsamplingNearest2d nat
  | BatchNorm2d nat real real
  | Swish
  | Sequential "layer list"

text \<open>
  The tensor engine is not part of the repository: it is a parameter of every forward
  function. \<open>prim l t\<close> applies a primitive (non-\<open>Sequential\<close>) module to a tensor,
  \<open>tmul t w\<close> and \<open>tdiv t d\<close> are \<^verbatim>\<open>t * w\<close> and \<^verbatim>\<open>t / d\<close> for a scalar, and
  \<open>stack_sum ts\<close> is \<^verbatim>\<open>torch.sum(torch.stack(ts, dim=-1), dim=-1)\<close>. Scalars (the
  fusion weights and \<^verbatim>\<open>eps\<close>) are real numbers.
\<close>

record 't torch =
  prim :: "layer \<Rightarrow> 't \<Rightarrow> error + 't"
  tmul :: "'t \<Rightarrow> real \<Rightarrow> 't"
  tdiv :: "'t \<Rightarrow> real \<Rightarrow> 't"
  stack_sum :: "'t list \<Rightarrow> error + 't"

text \<open>Calling a module; a \<open>Sequential\<close> feeds each child's output to the next.\<close>

fun apply_layer :: "'t torch \<Rightarrow> layer \<Rightarrow> 't \<Rightarrow> error + 't"
  and apply_layers :: "'t torch \<Rightarrow> layer list \<Rightarrow> 't \<Rightarrow> error + 't" where
  "apply_layer B (Sequential ls) t = apply_layers B ls t"
| "apply_layer B l t = prim B l t"
| "apply_layers B [] t = Inr t"
| "apply_layers B (l # ls) t =
     (case apply_layer B l t of
        Inl e \<Rightarrow> Inl e
      | Inr t' \<Rightarrow> apply_layers B ls t')"

subsection \<open>Ordered dictionaries\<close>

text \<open>
  A \<^verbatim>\<open>dict\<close> or \<^verbatim>\<open>collections.OrderedDict\<close> with integer keys: an association list
  in insertion order. \<open>od_set\<close> is \<^verbatim>\<open>d[k] = v\<close>: an existing key keeps its place, a new
  key goes to the end.
\<close>

type_synonym 'v odict = "(int \<times> 'v) list"

definition od_get :: "'v odict \<Rightarrow> int \<Rightarrow> error + 'v" where
  "od_get d k = (case map_of d k of None \<Rightarrow> Inl KeyError | Some v \<Rightarrow> Inr v)"

fun od_set :: "'v odict \<Rightarrow> int \<Rightarrow> 'v \<Rightarrow> 'v odict" where
  "od_set [] k v = [(k, v)]"
| "od_set ((k', v') # d) k v =
     (if k' = k then (k, v) # d else (k', v') # od_set d k v)"

text \<open>\<^verbatim>\<open>next(iter(d.keys()))\<close> and \<^verbatim>\<open>next(reversed(d.items()))\<close>.\<close>

definition od_first_key :: "'v odict \<Rightarrow> error + int" where
  "od_first_key d = (case d of [] \<Rightarrow> Inl StopIteration | (k, v) # _ \<Rightarrow> Inr k)"

definition od_last :: "'v odict \<Rightarrow> error + (int \<times> 'v)" where
  "od_last d = (if d = [] then Inl StopIteration else Inr (last d))"

text \<open>Python's \<^verbatim>\<open>max\<close> of a list, and the slice \<^verbatim>\<open>xs[-k:]\<close> for \<open>k \<ge> 0\<close>.\<close>

definition py_max :: "int list \<Rightarrow> error + int" where
  "py_max xs = (case xs of [] \<Rightarrow> Inl ValueError | x # rest \<Rightarrow> Inr (fold max rest x))"

definition slice_last :: "'a list \<Rightarrow> nat \<Rightarrow> 'a list" where
  "slice_last xs k = (if k = 0 then xs else drop (length xs - k) xs)"

section \<open>CombineLevels\<close>

record CombineLevels =
  eps :: real
  upsample :: bool
  offsets :: "int list"
  cl_levels_in :: "nat odict"
  lateral_node :: "int option"
  lateral_conv :: "layer option"
  resample :: layer
  weights :: "real list"

text \<open>
  The loop of \<^verbatim>\<open>CombineLevels.__init__\<close> over \<^verbatim>\<open>self.offsets\<close>: every offset that is an
  input level with a channel count other than \<^verbatim>\<open>channels\<close> overwrites
  \<^verbatim>\<open>self.lateral_node\<close> and \<^verbatim>\<open>self.lateral_conv\<close>, so the last one stays.
\<close>

fun find_lateral ::
  "int list \<Rightarrow> nat odict \<Rightarrow> nat \<Rightarrow> int option \<times> layer option \<Rightarrow> int option \<times> layer option" where
  "find_lateral [] levels_in channels acc = acc"
| "find_lateral (offset # rest) levels_in channels acc =
     (case map_of levels_in offset of
        None \<Rightarrow> find_lateral rest levels_in channels acc
      | Some c \<Rightarrow>
          if c \<noteq> channels
          then find_lateral rest levels_in channels
                 (Some offset, Some (Conv2d c channels 1 0 1 True))
          else find_lateral rest levels_in channels acc)"

definition CombineLevels_init :: "node_param \<Rightarrow> int \<Rightarrow> nat \<Rightarrow> nat odict \<Rightarrow> CombineLevels" where
  "CombineLevels_init param index_offset channels levels_in =
     (let offs = map (\<lambda>offset. index_offset + offset) (np_offsets param);
          lat = find_lateral offs levels_in channels (None, None)
      in \<lparr> eps = 1 / 10000,
           upsample = np_upsample param,
           offsets = offs,
           cl_levels_in = levels_in,
           lateral_node = fst lat,
           lateral_conv = snd lat,
           resample = (if np_upsample param then UpsamplingNearest2d 2
                       else Sequential [MaxPool2d 3 1 2]),
           weights = replicate (length offs) 1 \<rparr>)"

text \<open>
  \<^verbatim>\<open>CombineLevels.__call__\<close>, first half (lines 261 to 272): the loop over the keys of
  \<^verbatim>\<open>x\<close> that fills \<^verbatim>\<open>nodes\<close>, then the assignment of the resampled entry.
\<close>

fun gather_loop ::
  "'t torch \<Rightarrow> CombineLevels \<Rightarrow> 't odict \<Rightarrow> int list \<Rightarrow> 't odict \<Rightarrow> error + 't odict" where
  "gather_loop B cl x [] nodes = Inr nodes"
| "gather_loop B cl x (node # rest) nodes =
     (if Some node = lateral_node cl then
        (case lateral_conv cl of
           None \<Rightarrow> Inl AttributeError
         | Some conv \<Rightarrow>
            (case od_get x node of
               Inl e \<Rightarrow> Inl e
             | Inr t \<Rightarrow>
                (case apply_layer B conv t of
                   Inl e \<Rightarrow> Inl e
                 | Inr t' \<Rightarrow> gather_loop B cl x rest (od_set nodes node t'))))
      else if node \<in> set (offsets cl) then
        (case py_max (offsets cl) of
           Inl e \<Rightarrow> Inl e
         | Inr m \<Rightarrow>
            if node \<noteq> m then
              (case od_get x node of
                 Inl e \<Rightarrow> Inl e
               | Inr t \<Rightarrow> gather_loop B cl x rest (od_set nodes node t))
            else gather_loop B cl x rest nodes)
      else gather_loop B cl x rest nodes)"

definition gather_nodes :: "'t torch \<Rightarrow> CombineLevels \<Rightarrow> 't odict \<Rightarrow> error + 't odict" where
  "gather_nodes B cl x =
     (case gather_loop B cl x (map fst x) [] of
        Inl e \<Rightarrow> Inl e
      | Inr nodes \<Rightarrow>
         (case py_max (offsets cl) of
            Inl e \<Rightarrow> Inl e
          | Inr m \<Rightarrow>
             (case od_get x m of
                Inl e \<Rightarrow> Inl e
              | Inr raw \<Rightarrow>
                 (case apply_layer B (resample cl) raw of
                    Inl e \<Rightarrow> Inl e
                  | Inr r \<Rightarrow> Inr (od_set nodes m r)))))"

text \<open>
  Second half (lines 274 to 284): the rectified weights, the normalisation denominator
  \<^verbatim>\<open>torch.sum(weights + self.eps)\<close>, the list of weighted inputs in the order of
  \<^verbatim>\<open>self.offsets\<close>, and their sum.
\<close>

definition relu :: "real \<Rightarrow> real" where
  "relu w = max 0 w"

definition norm_denominator :: "CombineLevels \<Rightarrow> real" where
  "norm_denominator cl = sum_list (map (\<lambda>w. w + eps cl) (map relu (weights cl)))"

fun weighted_terms ::
  "'t torch \<Rightarrow> CombineLevels \<Rightarrow> 't odict \<Rightarrow> nat \<Rightarrow> int list \<Rightarrow> error + 't list" where
  "weighted_terms B cl nodes idx [] = Inr []"
| "weighted_terms B cl nodes idx (offset # rest) =
     (case od_get nodes offset of
        Inl e \<Rightarrow> Inl e
      | Inr t \<Rightarrow>
         if idx < length (weights cl) then
           (case weighted_terms B cl nodes (Suc idx) rest of
              Inl e \<Rightarrow> Inl e
            | Inr ts \<Rightarrow>
               Inr (tdiv B (tmul B t (relu (weights cl ! idx))) (norm_denominator cl) # ts))
         else Inl IndexError)"

definition fuse :: "'t torch \<Rightarrow> CombineLevels \<Rightarrow> 't odict \<Rightarrow> error + 't" where
  "fuse B cl nodes =
     (case weighted_terms B cl nodes 0 (offsets cl) of
        Inl e \<Rightarrow> Inl e
      | Inr ts \<Rightarrow> stack_sum B ts)"

definition CombineLevels_call :: "'t torch \<Rightarrow> CombineLevels \<Rightarrow> 't odict \<Rightarrow> error + 't" where
  "CombineLevels_call B cl x =
     (case gather_nodes B cl x of
        Inl e \<Rightarrow> Inl e
      | Inr nodes \<Rightarrow> fuse B cl nodes)"

section \<open>BiFPNBlock\<close>

record BiFPNBlock =
  num_levels :: int
  combines :: "CombineLevels list"
  post_combines :: "layer list"
  index_offset :: int

definition post_combine :: "nat \<Rightarrow> layer" where
  "post_combine channels =
     Sequential [ Conv2d channels channels 3 1 channels False,
                  Conv2d channels channels 1 0 1 True,
                  BatchNorm2d channels (1 / 100) (1 / 1000),
                  Swish ]"

definition BiFPNBlock_init :: "nat \<Rightarrow> int \<Rightarrow> nat odict \<Rightarrow> BiFPNBlock" where
  "BiFPNBlock_init channels n_levels channels_in =
     (let io = n_levels - int (length channels_in) + 1
      in \<lparr> num_levels = n_levels,
           combines = map (\<lambda>node. CombineLevels_init node io channels channels_in) NODE_PARAMS,
           post_combines = map (\<lambda>node. post_combine channels) NODE_PARAMS,
           index_offset = io \<rparr>)"

text \<open>
  The forward functions of the block and of the stack assign into the mapping they are
  given. They return the pair of the call's outcome and the argument mapping as the call
  leaves it, also when the call raises.
\<close>

fun block_loop ::
  "'t torch \<Rightarrow> (CombineLevels \<times> layer) list \<Rightarrow> 't odict \<Rightarrow> (error + unit) \<times> 't odict" where
  "block_loop B [] input_maps = (Inr (), input_maps)"
| "block_loop B ((combine, post_combine_conv) # rest) input_maps =
     (case od_last input_maps of
        Inl e \<Rightarrow> (Inl e, input_maps)
      | Inr (level_idx, top_map) \<Rightarrow>
         (case CombineLevels_call B combine input_maps of
            Inl e \<Rightarrow> (Inl e, input_maps)
          | Inr t \<Rightarrow>
             (case apply_layer B post_combine_conv t of
                Inl e \<Rightarrow> (Inl e, input_maps)
              | Inr t' \<Rightarrow> block_loop B rest (od_set input_maps (level_idx + 1) t'))))"

text \<open>The last \<^verbatim>\<open>num_levels\<close> values, keyed from \<^verbatim>\<open>level_id_offset\<close> upwards.\<close>

definition trim :: "int \<Rightarrow> int \<Rightarrow> 't odict \<Rightarrow> 't odict" where
  "trim n_levels level_id_offset input_maps =
     (let kept = drop (nat (int (length input_maps) - n_levels)) (map snd input_maps)
      in zip (map (\<lambda>i. int i + level_id_offset) [0 ..< length kept]) kept)"

definition BiFPNBlock_call ::
  "'t torch \<Rightarrow> BiFPNBlock \<Rightarrow> 't odict \<Rightarrow> (error + 't odict) \<times> 't odict" where
  "BiFPNBlock_call B blk input_maps =
     (case od_first_key input_maps of
        Inl e \<Rightarrow> (Inl e, input_maps)
      | Inr level_id_offset \<Rightarrow>
         (case block_loop B (zip (combines blk) (post_combines blk)) input_maps of
            (Inl e, maps') \<Rightarrow> (Inl e, maps')
          | (Inr u, maps') \<Rightarrow> (Inr (trim (num_levels blk) level_id_offset maps'), maps')))"

section \<open>BiFPN\<close>

text \<open>
  \<^verbatim>\<open>self.downsample_convs\<close> is assigned only when \<^verbatim>\<open>bifpn_height != len(levels)\<close>;
  \<open>None\<close> is the attribute that was never set.
\<close>

record BiFPN =
  levels_in :: "int list"
  bifpn_height :: int
  in_channels :: "nat list"
  downsample_convs :: "layer list option"
  bifp_layers :: "BiFPNBlock list"

text \<open>The dict comprehension of line 109; \<^verbatim>\<open>level_channels[idx]\<close> may be out of range.\<close>

fun channel_dict_of :: "nat list \<Rightarrow> nat \<Rightarrow> int list \<Rightarrow> nat odict \<Rightarrow> error + nat odict" where
  "channel_dict_of level_channels idx [] d = Inr d"
| "channel_dict_of level_channels idx (level # rest) d =
     (if idx < length level_channels
      then channel_dict_of level_channels (Suc idx) rest (od_set d level (level_channels ! idx))
      else Inl IndexError)"

definition BiFPN_init :: "nat list \<Rightarrow> nat \<Rightarrow> int \<Rightarrow> int \<Rightarrow> int list \<Rightarrow> error + BiFPN" where
  "BiFPN_init in_chs out_channels num_bifpns height levels =
     (case (if height \<noteq> int (length levels) then
              (if in_chs = [] then Inl IndexError
               else Inr (Some
                 ([Sequential [Conv2d (last in_chs) out_channels 1 0 1 True, MaxPool2d 3 1 2]]
                  @ replicate (nat (height - int (length levels) - 1)) (MaxPool2d 3 1 2))))
            else Inr None) of
        Inl e \<Rightarrow> Inl e
      | Inr convs \<Rightarrow>
         (let level_channels =
                slice_last in_chs (length levels)
                @ replicate (nat (height - int (length levels))) out_channels
          in case channel_dict_of level_channels 0 levels [] of
               Inl e \<Rightarrow> Inl e
             | Inr channel_dict \<Rightarrow>
                Inr \<lparr> levels_in = levels,
                      bifpn_height = height,
                      in_channels = in_chs,
                      downsample_convs = convs,
                      bifp_layers =
                        map (\<lambda>idx. BiFPNBlock_init out_channels height
                                     (if idx \<noteq> 0
                                      then fold (\<lambda>l d. od_set d l out_channels) levels []
                                      else channel_dict))
                            [0 ..< nat num_bifpns] \<rparr>))"

text \<open>The loop of \<^verbatim>\<open>BiFPN.__call__\<close> over \<^verbatim>\<open>self.downsample_convs\<close>.\<close>

fun expand :: "'t torch \<Rightarrow> layer list \<Rightarrow> 't odict \<Rightarrow> (error + unit) \<times> 't odict" where
  "expand B [] feature_maps = (Inr (), feature_maps)"
| "expand B (layer # rest) feature_maps =
     (case od_last feature_maps of
        Inl e \<Rightarrow> (Inl e, feature_maps)
      | Inr (top_level_idx, top_level_map) \<Rightarrow>
         (case apply_layer B layer top_level_map of
            Inl e \<Rightarrow> (Inl e, feature_maps)
          | Inr t \<Rightarrow> expand B rest (od_set feature_maps (top_level_idx + 1) t)))"

text \<open>
  \<^verbatim>\<open>self.bifp_layers(feature_maps)\<close>: the first block works on the caller's mapping, every
  later block on the mapping its predecessor returned. With no block at all the
  \<open>Sequential\<close> returns its argument.
\<close>

fun run_blocks ::
  "'t torch \<Rightarrow> BiFPNBlock list \<Rightarrow> 't odict \<Rightarrow> (error + 't odict) \<times> 't odict" where
  "run_blocks B [] maps = (Inr maps, maps)"
| "run_blocks B (blk # rest) maps =
     (case BiFPNBlock_call B blk maps of
        (Inl e, maps') \<Rightarrow> (Inl e, maps')
      | (Inr out, maps') \<Rightarrow> (fst (run_blocks B rest out), maps'))"

definition BiFPN_call ::
  "'t torch \<Rightarrow> BiFPN \<Rightarrow> 't odict \<Rightarrow> (error + 't odict) \<times> 't odict" where
  "BiFPN_call B m feature_maps =
     (case downsample_convs m of
        None \<Rightarrow> (Inl AttributeError, feature_maps)
      | Some convs \<Rightarrow>
         (case expand B convs feature_maps of
            (Inl e, maps') \<Rightarrow> (Inl e, maps')
          | (Inr u, maps') \<Rightarrow> run_blocks B (bifp_layers m) maps'))"

section \<open>Two tensor engines\<close>

text \<open>
  Shapes \<open>(channels, height, width)\<close> with the size arithmetic of the \<^verbatim>\<open>torch.nn\<close>
  modules the constructors use (the batch dimension is left out): a convolution of
  stride 1 needs its declared input channel count, pooling gives
  \<open>(n + 2 * padding - kernel_size) div stride + 1\<close>, scalars leave a shape alone, and
  \<^verbatim>\<open>torch.stack\<close> needs tensors of one size.
\<close>

type_synonym shape = "nat \<times> nat \<times> nat"

fun shape_prim :: "layer \<Rightarrow> shape \<Rightarrow> error + shape" where
  "shape_prim (Conv2d cin cout k p g b) (c, h, w) =
     (if c \<noteq> cin \<or> h + 2 * p < k \<or> w + 2 * p < k then Inl RuntimeError
      else Inr (cout, h + 2 * p - k + 1, w + 2 * p - k + 1))"
| "shape_prim (MaxPool2d k p s) (c, h, w) =
     (if s = 0 \<or> h + 2 * p < k \<or> w + 2 * p < k then Inl RuntimeError
      else Inr (c, (h + 2 * p - k) div s + 1, (w + 2 * p - k) div s + 1))"
| "shape_prim (UpsamplingNearest2d f) (c, h, w) =
     (if f * h = 0 \<or> f * w = 0 then Inl RuntimeError else Inr (c, f * h, f * w))"
| "shape_prim (BatchNorm2d n momentum e) (c, h, w) =
     (if c \<noteq> n then Inl RuntimeError else Inr (c, h, w))"
| "shape_prim Swish s = Inr s"
| "shape_prim (Sequential ls) s = Inl RuntimeError"

fun shape_stack :: "shape list \<Rightarrow> error + shape" where
  "shape_stack [] = Inl RuntimeError"
| "shape_stack (s # ss) = (if list_all (\<lambda>s'. s' = s) ss then Inr s else Inl RuntimeError)"

definition shapes :: "shape torch" where
  "shapes = \<lparr> prim = shape_prim, tmul = (\<lambda>s w. s), tdiv = (\<lambda>s d. s), stack_sum = shape_stack \<rparr>"

text \<open>
  Element values: a tensor is the list of its elements, the scalar operations work
  elementwise, and the stacked sum adds tensors of one length position by position. The
  modules are left to a parameter.
\<close>

fun vec_stack :: "real list list \<Rightarrow> error + real list" where
  "vec_stack [] = Inl RuntimeError"
| "vec_stack [t] = Inr t"
| "vec_stack (t # ts) =
     (case vec_stack ts of
        Inl e \<Rightarrow> Inl e
      | Inr s \<Rightarrow> if length s = length t then Inr (map2 (+) t s) else Inl RuntimeError)"

definition elements :: "(layer \<Rightarrow> real list \<Rightarrow> error + real list) \<Rightarrow> real list torch" where
  "elements p =
     \<lparr> prim = p, tmul = (\<lambda>t w. map (\<lambda>v. v * w) t), tdiv = (\<lambda>t d. map (\<lambda>v. v / d) t),
       stack_sum = vec_stack \<rparr>"

section \<open>The concrete scenario\<close>

definition scenario_input :: "shape odict" where
  "scenario_input = [(3, (40, 64, 64)), (4, (80, 32, 32)), (5, (160, 16, 16))]"

section \<open>Notions used by the properties\<close>

text \<open>
  Keys in strictly ascending insertion order, "finest first": the order in which
  \<^verbatim>\<open>BiFPN.__call__\<close> expects its argument.
\<close>

definition ascending :: "'v odict \<Rightarrow> bool" where
  "ascending d = sorted_wrt (<) (map fst d)"

text \<open>
  The factor that \<^verbatim>\<open>CombineLevels.__call__\<close> multiplies the input at each offset with:
  \<^verbatim>\<open>weights[idx] / torch.sum(weights + self.eps)\<close>.
\<close>

definition effective_weights :: "CombineLevels \<Rightarrow> real list" where
  "effective_weights cl = map (\<lambda>w. relu w / norm_denominator cl) (weights cl)"

text \<open>
  The value the specification gives for one element of a fusion node's output: the
  weighted sum over the sum of the rectified weights plus a single \<open>1e-4\<close>.
\<close>

definition spec_weighted_sum :: "real list \<Rightarrow> real list \<Rightarrow> real" where
  "spec_weighted_sum ws xs =
     sum_list (map2 (\<lambda>w x. relu w * x) ws xs) / (sum_list (map relu ws) + 1 / 10000)"


text \<open>The first fusion node of the scenario's block: the offsets 6 and 7, both weights 1.\<close>

definition scenario_node :: CombineLevels where
  "scenario_node =
     CombineLevels_init (node_param 6 [3, 4] True) 3 64 [(3, 40), (4, 80), (5, 160)]"

text \<open>
  A node over five input levels that all need a projection: its lateral node is the
  last such offset, which is also its largest offset.
\<close>

definition lateral_top_node :: CombineLevels where
  "lateral_top_node =
     CombineLevels_init (node_param 6 [3, 4] True) 1 64
       [(1, 40), (2, 40), (3, 40), (4, 40), (5, 160)]"

text \<open>
  Modules that return their input, for examples over element values in which only the
  arithmetic of the weighted sum matters.
\<close>

definition pass_through :: "layer \<Rightarrow> real list \<Rightarrow> error + real list" where
  "pass_through l t = Inr t"



section \<open>Ordered dictionaries: lookup, assignment, ascending keys\<close>

lemma map_of_od_set: "map_of (od_set d k v) = (map_of d)(k \<mapsto> v)"
  by (induction d k v rule: od_set.induct) auto

lemma od_get_od_set_same: "od_get (od_set d k v) k = Inr v"
  by (simp add: od_get_def map_of_od_set)

lemma od_get_od_set_other: "k' \<noteq> k \<Longrightarrow> od_get (od_set d k v) k' = od_get d k'"
  by (simp add: od_get_def map_of_od_set)

lemma od_set_fresh: "k \<notin> fst ` set d \<Longrightarrow> od_set d k v = d @ [(k, v)]"
  by (induction d k v rule: od_set.induct) auto

lemma ascending_last_max:
  assumes "ascending d" "(k, v) \<in> set d"
  shows "k \<le> fst (last d)"
  using assms unfolding ascending_def
proof (induction d)
  case Nil
  then show ?case by simp
next
  case (Cons a d)
  show ?case
  proof (cases "d = []")
    case True
    then show ?thesis using Cons.prems by auto
  next
    case False
    then have in_d: "last d \<in> set d" by simp
    then have lt: "fst a < fst (last d)" using Cons.prems(1) by auto
    show ?thesis
    proof (cases "(k, v) = a")
      case True
      then show ?thesis using lt False by auto
    next
      case neq: False
      then have "k \<le> fst (last d)" using Cons by auto
      then show ?thesis using False by simp
    qed
  qed
qed

lemma od_set_succ_last:
  assumes "ascending d" "d \<noteq> []"
  shows "od_set d (fst (last d) + 1) v = d @ [(fst (last d) + 1, v)]"
proof (rule od_set_fresh)
  show "fst (last d) + 1 \<notin> fst ` set d"
    using ascending_last_max[OF assms(1)] by fastforce
qed

lemma ascending_snoc:
  assumes "ascending d" "d \<noteq> []"
  shows "ascending (d @ [(fst (last d) + 1, v)])"
  using assms ascending_last_max[OF assms(1)]
  unfolding ascending_def by (fastforce simp: sorted_wrt_append)

lemma expand_prefix:
  "ascending fm \<Longrightarrow> prefix fm (snd (expand B ls fm)) \<and> ascending (snd (expand B ls fm))"
proof (induction ls arbitrary: fm)
  case Nil
  then show ?case by simp
next
  case (Cons l ls)
  show ?case
  proof (cases "fm = []")
    case True
    then show ?thesis using Cons.prems by (simp add: od_last_def)
  next
    case False
    obtain k t where last: "last fm = (k, t)" by (cases "last fm")
    show ?thesis
    proof (cases "apply_layer B l t")
      case (Inl e)
      then show ?thesis using False last Cons.prems by (simp add: od_last_def)
    next
      case (Inr t')
      let ?fm' = "fm @ [(k + 1, t')]"
      have set: "od_set fm (k + 1) t' = ?fm'"
        using od_set_succ_last[OF Cons.prems False, of t'] last by simp
      have asc: "ascending ?fm'"
        using ascending_snoc[OF Cons.prems False, of t'] last by simp
      have "prefix ?fm' (snd (expand B ls ?fm'))" "ascending (snd (expand B ls ?fm'))"
        using Cons.IH[OF asc] by simp_all
      moreover have "expand B (l # ls) fm = expand B ls ?fm'"
        using False last Inr set by (simp add: od_last_def)
      ultimately show ?thesis by (auto dest: append_prefixD)
    qed
  qed
qed

lemma block_loop_prefix:
  "ascending fm \<Longrightarrow> prefix fm (snd (block_loop B cs fm)) \<and> ascending (snd (block_loop B cs fm))"
proof (induction cs arbitrary: fm)
  case Nil
  then show ?case by simp
next
  case (Cons c cs)
  obtain combine post where c: "c = (combine, post)" by (cases c)
  show ?case
  proof (cases "fm = []")
    case True
    then show ?thesis using Cons.prems c by (simp add: od_last_def)
  next
    case False
    obtain k t where last: "last fm = (k, t)" by (cases "last fm")
    show ?thesis
    proof (cases "CombineLevels_call B combine fm")
      case (Inl e)
      then show ?thesis using False last Cons.prems c by (simp add: od_last_def)
    next
      case comb: (Inr u)
      show ?thesis
      proof (cases "apply_layer B post u")
        case (Inl e)
        then show ?thesis using False last Cons.prems c comb by (simp add: od_last_def)
      next
        case (Inr t')
        let ?fm' = "fm @ [(k + 1, t')]"
        have set: "od_set fm (k + 1) t' = ?fm'"
          using od_set_succ_last[OF Cons.prems False, of t'] last by simp
        have asc: "ascending ?fm'"
          using ascending_snoc[OF Cons.prems False, of t'] last by simp
        have "prefix ?fm' (snd (block_loop B cs ?fm'))" "ascending (snd (block_loop B cs ?fm'))"
          using Cons.IH[OF asc] by simp_all
        moreover have "block_loop B (c # cs) fm = block_loop B cs ?fm'"
          using False last Inr comb set c by (simp add: od_last_def)
        ultimately show ?thesis by (auto dest: append_prefixD)
      qed
    qed
  qed
qed

lemma BiFPNBlock_call_prefix:
  "ascending fm \<Longrightarrow> prefix fm (snd (BiFPNBlock_call B blk fm))"
  using block_loop_prefix[of fm B "zip (combines blk) (post_combines blk)"]
  by (auto simp: BiFPNBlock_call_def split: sum.splits prod.splits)

lemma run_blocks_prefix:
  "ascending fm \<Longrightarrow> prefix fm (snd (run_blocks B blks fm))"
  using BiFPNBlock_call_prefix[of fm B "hd blks"]
  by (cases blks) (auto split: sum.splits prod.splits)

section \<open>The concrete scenario (C7)\<close>

text \<open>
  C7. The stack built with \<^verbatim>\<open>in_channels=[40,80,160]\<close>, \<^verbatim>\<open>levels=[3,4,5]\<close>,
  \<^verbatim>\<open>out_channels=64\<close>, \<^verbatim>\<open>bifpn_height=5\<close>, \<^verbatim>\<open>num_bifpns=1\<close> is constructed without
  error. On the input \<open>{3:(40,64,64), 4:(80,32,32), 5:(160,16,16)}\<close> its expander loop
  adds the levels \<open>6:(64,8,8)\<close> and \<open>7:(64,4,4)\<close>, and the forward call returns the keys
  3 to 7 with 64 channels each and the spatial sizes 64, 32, 16, 8 and 4.
\<close>

theorem scenario_forward:
  "(case BiFPN_init [40, 80, 160] 64 1 5 [3, 4, 5] of
      Inl e \<Rightarrow> False
    | Inr m \<Rightarrow>
        map_option (\<lambda>convs. expand shapes convs scenario_input) (downsample_convs m)
          = Some (Inr (), [(3, (40, 64, 64)), (4, (80, 32, 32)), (5, (160, 16, 16)),
                           (6, (64, 8, 8)), (7, (64, 4, 4))])
        \<and> fst (BiFPN_call shapes m scenario_input)
          = Inr [(3, (64, 64, 64)), (4, (64, 32, 32)), (5, (64, 16, 16)),
                 (6, (64, 8, 8)), (7, (64, 4, 4))])"
  by code_simp

section \<open>The mapping passed to a forward call (C3)\<close>

text \<open>
  In the scenario the mapping the caller passed holds thirteen entries after the call:
  the three it had, the two synthesized levels and the eight nodes of the first block.
\<close>

theorem call_changes_argument:
  "(case BiFPN_init [40, 80, 160] 64 1 5 [3, 4, 5] of
      Inl e \<Rightarrow> False
    | Inr m \<Rightarrow>
        snd (BiFPN_call shapes m scenario_input) \<noteq> scenario_input
        \<and> map fst (snd (BiFPN_call shapes m scenario_input))
            = [3, 4, 5, 6, 7, 8, 9, 10, 11, 12, 13, 14, 15])"
  by code_simp

text \<open>
  C3, as the code has it. A forward call assigns into the mapping it is given. When
  the keys of that mapping are in ascending order, every assignment adds a new last key:
  the mapping after the call, whether the call returned or raised, starts with the
  entries it had before, unchanged and in place, and may hold more after them.
\<close>

theorem call_keeps_entries:
  "ascending fm \<Longrightarrow> prefix fm (snd (BiFPN_call B m fm))"
proof -
  assume asc: "ascending fm"
  show ?thesis
  proof (cases "downsample_convs m")
    case None
    then show ?thesis by (simp add: BiFPN_call_def)
  next
    case (Some convs)
    obtain r fm' where ex: "expand B convs fm = (r, fm')" by (cases "expand B convs fm")
    have p: "prefix fm fm'" and a: "ascending fm'"
      using expand_prefix[OF asc, of B convs] ex by simp_all
    show ?thesis
    proof (cases r)
      case (Inl e)
      then show ?thesis using Some ex p by (simp add: BiFPN_call_def)
    next
      case (Inr u)
      then have "BiFPN_call B m fm = run_blocks B (bifp_layers m) fm'"
        using Some ex by (simp add: BiFPN_call_def)
      then show ?thesis using run_blocks_prefix[OF a, of B "bifp_layers m"] p
        by (auto intro: prefix_order.trans)
    qed
  qed
qed

theorem call_keeps_entries_witness:
  "ascending scenario_input
   \<and> prefix scenario_input
       (snd (BiFPN_call shapes (projr (BiFPN_init [40, 80, 160] 64 1 5 [3, 4, 5]))
              scenario_input))"
proof -
  have h: "ascending scenario_input"
    by (simp add: ascending_def scenario_input_def)
  show ?thesis
    using h call_keeps_entries[OF h] by simp
qed

text \<open>
  A second call on the very mapping the first call wrote into does not repeat the first:
  the expander now starts from key 15.
\<close>

lemma second_call_on_written_mapping:
  "(case BiFPN_init [40, 80, 160] 64 1 5 [3, 4, 5] of
      Inl e \<Rightarrow> False
    | Inr m \<Rightarrow>
        fst (BiFPN_call shapes m (snd (BiFPN_call shapes m scenario_input)))
          = Inl RuntimeError)"
  by code_simp

section \<open>A height equal to the number of levels (C1)\<close>

text \<open>
  With \<^verbatim>\<open>bifpn_height == len(levels)\<close> the constructor never assigns
  \<^verbatim>\<open>self.downsample_convs\<close>, and \<^verbatim>\<open>__call__\<close> reads it first of all.
\<close>

lemma equal_height_call_raises:
  assumes "BiFPN_init in_chs out_channels num_bifpns (int (length levels)) levels = Inr m"
  shows "downsample_convs m = None"
    and "BiFPN_call B m feature_maps = (Inl AttributeError, feature_maps)"
proof -
  show "downsample_convs m = None"
    using assms by (auto simp: BiFPN_init_def split: sum.splits)
  then show "BiFPN_call B m feature_maps = (Inl AttributeError, feature_maps)"
    by (simp add: BiFPN_call_def)
qed

text \<open>
  C1. For \<^verbatim>\<open>levels=[1,2,3,4,5]\<close>, \<^verbatim>\<open>bifpn_height=5\<close> and 64 channels everywhere the
  constructor builds no expander, as the specification says; but the forward call on a
  well-formed five-level input raises \<^verbatim>\<open>AttributeError\<close> and returns nothing, where the
  specification has it succeed with five levels. The blocks alone, run on the same input, do
  return the five levels.
\<close>

theorem equal_height_forward_fails:
  "(case BiFPN_init [64, 64, 64, 64, 64] 64 1 5 [1, 2, 3, 4, 5] of
      Inl e \<Rightarrow> False
    | Inr m \<Rightarrow>
        downsample_convs m = None
        \<and> BiFPN_call shapes m
            [(1, (64, 64, 64)), (2, (64, 32, 32)), (3, (64, 16, 16)),
             (4, (64, 8, 8)), (5, (64, 4, 4))]
          = (Inl AttributeError,
             [(1, (64, 64, 64)), (2, (64, 32, 32)), (3, (64, 16, 16)),
              (4, (64, 8, 8)), (5, (64, 4, 4))])
        \<and> fst (run_blocks shapes (bifp_layers m)
                 [(1, (64, 64, 64)), (2, (64, 32, 32)), (3, (64, 16, 16)),
                  (4, (64, 8, 8)), (5, (64, 4, 4))])
          = Inr [(1, (64, 64, 64)), (2, (64, 32, 32)), (3, (64, 16, 16)),
                 (4, (64, 8, 8)), (5, (64, 4, 4))])"
  by code_simp

section \<open>A height below the number of levels (C2)\<close>





section \<open>Offsets that are missing from the mapping (C5)\<close>

text \<open>
  A block for five levels over the input levels 2, 3 and 4 is constructed (the
  constructor is a total function and resolves the first node to the keys 6 and 7);
  the forward call on the keys 2 to 6 then raises \<^verbatim>\<open>KeyError\<close>.
\<close>

theorem unresolved_offset_at_runtime:
  "index_offset (BiFPNBlock_init 64 5 [(2, 40), (3, 80), (4, 160)]) = 3
   \<and> map offsets (combines (BiFPNBlock_init 64 5 [(2, 40), (3, 80), (4, 160)]))
       = [[6, 7], [5, 8], [4, 9], [3, 10], [4, 10, 11], [5, 9, 12], [6, 8, 13], [7, 14]]
   \<and> fst (BiFPNBlock_call shapes (BiFPNBlock_init 64 5 [(2, 40), (3, 80), (4, 160)])
           [(2, (40, 64, 64)), (3, (80, 32, 32)), (4, (160, 16, 16)),
            (5, (64, 8, 8)), (6, (64, 4, 4))])
       = Inl KeyError"
  by code_simp

lemma od_set_keys: "fst ` set (od_set d k v) = insert k (fst ` set d)"
  by (induction d k v rule: od_set.induct) auto

lemma gather_loop_keys:
  "gather_loop B cl x ks nodes0 = Inr nodes \<Longrightarrow> fst ` set nodes \<subseteq> set ks \<union> fst ` set nodes0"
proof (induction ks arbitrary: nodes0)
  case Nil
  then show ?case by simp
next
  case (Cons k ks)
  from Cons.prems obtain nodes1 where
    step: "gather_loop B cl x ks nodes1 = Inr nodes" and
    n1: "nodes1 = nodes0 \<or> (\<exists>t. nodes1 = od_set nodes0 k t)"
    by (auto split: if_splits option.splits sum.splits)
  have "fst ` set nodes1 \<subseteq> insert k (fst ` set nodes0)"
  proof (cases "nodes1 = nodes0")
    case True
    then show ?thesis by auto
  next
    case False
    then obtain t where "nodes1 = od_set nodes0 k t" using n1 by auto
    then show ?thesis by (simp add: od_set_keys)
  qed
  then show ?case using Cons.IH[OF step] by (simp only: list.set) blast
qed

lemma weighted_terms_missing:
  "o' \<in> set offs \<Longrightarrow> map_of nodes o' = None \<Longrightarrow> isl (weighted_terms B cl nodes idx offs)"
proof (induction offs arbitrary: idx)
  case Nil
  then show ?case by simp
next
  case (Cons a offs)
  show ?case
  proof (cases "a = o'")
    case True
    then show ?thesis using Cons.prems by (simp add: od_get_def)
  next
    case False
    then have "isl (weighted_terms B cl nodes (Suc idx) offs)" using Cons by simp
    then show ?thesis by (auto split: sum.splits)
  qed
qed

lemma py_max_in: "py_max xs = Inr m \<Longrightarrow> m \<in> set xs"
proof -
  have "fold max rest x \<in> set (x # rest)" for x :: int and rest
    by (induction rest arbitrary: x) (auto simp: max_def)
  then show "py_max xs = Inr m \<Longrightarrow> m \<in> set xs"
    by (auto simp: py_max_def split: list.splits)
qed

text \<open>
  C5, as the code has it. The constructors validate nothing; an offset of a node that
  is not a key of the mapping is met at call time, and then
  \<^verbatim>\<open>CombineLevels.__call__\<close> raises: it never returns a value computed without that
  input.
\<close>

theorem missing_offset_raises:
  assumes "o' \<in> set (offsets cl)" "o' \<notin> fst ` set x"
  shows "isl (CombineLevels_call B cl x)"
proof (cases "gather_nodes B cl x")
  case (Inl e)
  then show ?thesis by (simp add: CombineLevels_call_def)
next
  case (Inr nodes)
  then obtain nodes0 m raw r where
    loop: "gather_loop B cl x (map fst x) [] = Inr nodes0" and
    m: "py_max (offsets cl) = Inr m" and raw: "od_get x m = Inr raw" and
    nodes: "nodes = od_set nodes0 m r"
    by (auto simp: gather_nodes_def split: sum.splits)
  have "m \<in> fst ` set x"
    using raw by (auto simp: od_get_def split: option.splits dest: map_of_SomeD intro: rev_image_eqI)
  then have "o' \<noteq> m" using assms(2) by auto
  moreover have "o' \<notin> fst ` set nodes0"
    using gather_loop_keys[OF loop] assms(2) by auto
  ultimately have "map_of nodes o' = None"
    by (simp add: nodes map_of_od_set map_of_eq_None_iff)
  then have "isl (weighted_terms B cl nodes 0 (offsets cl))"
    using weighted_terms_missing assms(1) by fast
  then show ?thesis
    using Inr by (auto simp: CombineLevels_call_def fuse_def split: sum.splits)
qed

theorem missing_offset_raises_witness:
  "isl (CombineLevels_call shapes
          (CombineLevels_init (node_param 6 [3, 4] True) 3 64 [(2, 40), (3, 80), (4, 160)])
          [(2, (40, 64, 64)), (3, (80, 32, 32)), (4, (160, 16, 16)),
           (5, (64, 8, 8)), (6, (64, 4, 4))])"
proof -
  have h1: "7 \<in> set (offsets
      (CombineLevels_init (node_param 6 [3, 4] True) 3 64 [(2, 40), (3, 80), (4, 160)]))"
    by (simp add: scenario_node_def CombineLevels_init_def)
  have h2: "7 \<notin> fst ` set [(2, (40, 64, 64)), (3, (80, 32, 32)), (4, (160, 16, 16)),
           (5, (64, 8, 8)), (6::int, (64::nat, 4::nat, 4::nat))]"
    by simp
  show ?thesis
    by (rule missing_offset_raises[OF h1 h2])
qed

section \<open>The resampled entry and the lateral projection (C10)\<close>

lemma gather_loop_lateral_kept:
  "gather_loop B cl x ks nodes0 = Inr nodes \<Longrightarrow> lateral_node cl = Some k \<Longrightarrow>
   lateral_conv cl = Some conv \<Longrightarrow> od_get x k = Inr raw \<Longrightarrow>
   apply_layer B conv raw = Inr t \<Longrightarrow> od_get nodes0 k = Inr t \<Longrightarrow> od_get nodes k = Inr t"
proof (induction ks arbitrary: nodes0)
  case Nil
  then show ?case by simp
next
  case (Cons a ks)
  show ?case
  proof (cases "a = k")
    case True
    then have "gather_loop B cl x ks (od_set nodes0 k t) = Inr nodes"
      using Cons.prems by simp
    then show ?thesis
      using Cons.IH[of "od_set nodes0 k t"] Cons.prems by (simp add: od_get_od_set_same)
  next
    case False
    then obtain nodes1 where step: "gather_loop B cl x ks nodes1 = Inr nodes"
      and keep: "od_get nodes1 k = Inr t"
      using Cons.prems
      by (auto simp: od_get_od_set_other split: if_splits sum.splits)
    show ?thesis using Cons.IH[OF step Cons.prems(2-5) keep] .
  qed
qed

lemma gather_loop_lateral:
  "gather_loop B cl x ks nodes0 = Inr nodes \<Longrightarrow> lateral_node cl = Some k \<Longrightarrow> k \<in> set ks \<Longrightarrow>
   \<exists>conv raw t. lateral_conv cl = Some conv \<and> od_get x k = Inr raw \<and>
     apply_layer B conv raw = Inr t \<and> od_get nodes k = Inr t"
proof (induction ks arbitrary: nodes0)
  case Nil
  then show ?case by simp
next
  case (Cons a ks)
  show ?case
  proof (cases "a = k")
    case True
    then obtain conv raw t where c: "lateral_conv cl = Some conv" and r: "od_get x k = Inr raw"
      and t: "apply_layer B conv raw = Inr t"
      and step: "gather_loop B cl x ks (od_set nodes0 k t) = Inr nodes"
      using Cons.prems by (auto split: option.splits sum.splits)
    have "od_get nodes k = Inr t"
      using gather_loop_lateral_kept[OF step Cons.prems(2) c r t] by (simp add: od_get_od_set_same)
    then show ?thesis using c r t by blast
  next
    case False
    then obtain nodes1 where step: "gather_loop B cl x ks nodes1 = Inr nodes"
      using Cons.prems by (auto split: if_splits sum.splits)
    show ?thesis using Cons.IH[OF step Cons.prems(2)] Cons.prems(3) False by simp
  qed
qed

text \<open>
  C10. Whenever the first half of \<^verbatim>\<open>CombineLevels.__call__\<close> completes, the entry of
  \<^verbatim>\<open>nodes\<close> at the largest offset is the resample of the tensor the input mapping holds
  there, whatever \<^verbatim>\<open>lateral_node\<close> is; and a lateral node other than the largest offset
  that is a key of the input holds the lateral projection of its input tensor.
\<close>

theorem resampled_entry_is_raw:
  assumes "gather_nodes B cl x = Inr nodes"
  shows "\<exists>m raw r. py_max (offsets cl) = Inr m \<and> od_get x m = Inr raw
           \<and> apply_layer B (resample cl) raw = Inr r \<and> od_get nodes m = Inr r
           \<and> (\<forall>k. lateral_node cl = Some k \<and> k \<noteq> m \<and> k \<in> fst ` set x \<longrightarrow>
                (\<exists>conv raw'. lateral_conv cl = Some conv \<and> od_get x k = Inr raw'
                   \<and> od_get nodes k = apply_layer B conv raw'))"
proof -
  from assms obtain nodes0 m raw r where
    loop: "gather_loop B cl x (map fst x) [] = Inr nodes0" and
    m: "py_max (offsets cl) = Inr m" and raw: "od_get x m = Inr raw" and
    r: "apply_layer B (resample cl) raw = Inr r" and
    nodes: "nodes = od_set nodes0 m r"
    by (auto simp: gather_nodes_def split: sum.splits)
  have top: "od_get nodes m = Inr r"
    by (simp add: nodes od_get_od_set_same)
  have lat: "\<exists>conv raw'. lateral_conv cl = Some conv \<and> od_get x k = Inr raw'
               \<and> od_get nodes k = apply_layer B conv raw'"
    if k: "lateral_node cl = Some k" "k \<noteq> m" "k \<in> fst ` set x" for k
  proof -
    have "k \<in> set (map fst x)" using k(3) by simp
    from gather_loop_lateral[OF loop k(1) this] obtain conv raw' t where
      "lateral_conv cl = Some conv" "od_get x k = Inr raw'"
      "apply_layer B conv raw' = Inr t" "od_get nodes0 k = Inr t"
      by blast
    moreover have "od_get nodes k = od_get nodes0 k"
      using k(2) by (simp add: nodes od_get_od_set_other)
    ultimately show ?thesis by auto
  qed
  show ?thesis using m raw r top lat by blast
qed

text \<open>
  A node whose lateral node is its largest offset: the projected entry at key 5 is
  replaced by the upsampled input, which still has its 160 channels.
\<close>

theorem resampled_entry_is_raw_witness:
  "lateral_node lateral_top_node = Some 5
   \<and> (\<exists>m raw r.
        py_max (offsets lateral_top_node) = Inr m
        \<and> od_get [(4, (40, 8, 8)), (5, (160, 4, 4))] m = Inr raw
        \<and> apply_layer shapes (resample lateral_top_node) raw = Inr r
        \<and> od_get [(4, (40, 8, 8)), (5, (160, 8, 8))] m = Inr r
        \<and> (\<forall>k. lateral_node lateral_top_node = Some k
                \<and> k \<noteq> m \<and> k \<in> fst ` set ([(4, (40, 8, 8)), (5, (160, 4, 4))] :: shape odict) \<longrightarrow>
             (\<exists>conv raw'. lateral_conv lateral_top_node = Some conv
                \<and> od_get [(4, (40, 8, 8)), (5, (160, 4, 4))] k = Inr raw'
                \<and> od_get [(4, (40, 8, 8)), (5, (160, 8, 8))] k
                    = apply_layer shapes conv raw')))"
proof -
  have g: "gather_nodes shapes
      lateral_top_node
      [(4, (40, 8, 8)), (5, (160, 4, 4))]
    = Inr [(4, (40, 8, 8)), (5, (160, 8, 8))]"
    by code_simp
  have l: "lateral_node lateral_top_node = Some 5"
    by code_simp
  show ?thesis
  proof (rule conjI)
    show "lateral_node lateral_top_node = Some 5"
      by (rule l)
  qed (rule resampled_entry_is_raw[OF g])
qed

section \<open>The weighted sum (C4, C9)\<close>

text \<open>
  For the first node of the scenario (two weights, both 1) and the inputs 1 and 1 the
  code returns \<open>2 / 2.0002\<close>, the specification's formula \<open>2 / 2.0001\<close>.
\<close>

theorem single_epsilon_counterexample:
  "fuse (elements pass_through) scenario_node [(6, [1]), (7, [1])] = Inr [10000 / 10001]
   \<and> spec_weighted_sum (weights scenario_node) [1, 1] = 20000 / 20001
   \<and> fuse (elements pass_through) scenario_node [(6, [1]), (7, [1])]
       \<noteq> Inr [spec_weighted_sum (weights scenario_node) [1, 1]]"
  by (simp add: scenario_node_def fuse_def CombineLevels_init_def elements_def od_get_def norm_denominator_def
      relu_def spec_weighted_sum_def)

lemma relu_nonneg: "0 \<le> relu w"
  by (simp add: relu_def)

lemma sum_relu_nonneg: "0 \<le> sum_list (map relu ws)"
  by (induction ws) (auto simp: relu_nonneg)

lemma norm_denominator_eq:
  "norm_denominator cl = sum_list (map relu (weights cl)) + real (length (weights cl)) * eps cl"
proof -
  have "sum_list (map (\<lambda>w. w + e) vs) = sum_list vs + real (length vs) * e" for vs :: "real list" and e
    by (induction vs) (auto simp: algebra_simps)
  from this[of "eps cl" "map relu (weights cl)"] show ?thesis
    unfolding norm_denominator_def by simp
qed

lemma weighted_terms_elements:
  "map (od_get nodes) offs = map Inr xs \<Longrightarrow> idx + length offs \<le> length (weights cl) \<Longrightarrow>
   weighted_terms (elements p) cl nodes idx offs
     = Inr (map2 (\<lambda>x w. map (\<lambda>v. v * relu w / norm_denominator cl) x) xs (drop idx (weights cl)))"
proof (induction offs arbitrary: idx xs)
  case Nil
  then show ?case by simp
next
  case (Cons a offs)
  then obtain x xs' where xs: "xs = x # xs'" and x: "od_get nodes a = Inr x"
    and rest: "map (od_get nodes) offs = map Inr xs'"
    by (cases xs) auto
  have idx: "idx < length (weights cl)" and le: "Suc idx + length offs \<le> length (weights cl)"
    using Cons.prems(2) by auto
  have d: "drop idx (weights cl) = weights cl ! idx # drop (Suc idx) (weights cl)"
    using idx by (simp add: Cons_nth_drop_Suc)
  show ?case
    using Cons.IH[OF rest le] x idx
    by (simp add: xs d elements_def)
qed

lemma map2_plus_nth:
  "length t = m \<Longrightarrow> length s = m \<Longrightarrow> map2 (+) t s = map (\<lambda>j. t ! j + s ! j) [0..<m]" for t s :: "real list"
  by (rule nth_equalityI) auto

lemma vec_stack_sum:
  "ts \<noteq> [] \<Longrightarrow> list_all (\<lambda>t. length t = m) ts \<Longrightarrow>
   vec_stack ts = Inr (map (\<lambda>j. \<Sum>t\<leftarrow>ts. t ! j) [0..<m])"
proof (induction ts rule: vec_stack.induct)
  case 1
  then show ?case by simp
next
  case (2 t)
  then show ?case by (auto intro: nth_equalityI)
next
  case (3 t v va)
  then show ?case by (simp add: map2_plus_nth)
qed

lemma sum_list_map2_div:
  "(\<Sum>t\<leftarrow>map2 (\<lambda>x w. map (\<lambda>v. v * relu w / D) x) xs ws. t ! j)
     = (\<Sum>(x, w)\<leftarrow>zip xs ws. relu w * (x ! j)) / D"
  if "list_all (\<lambda>x. j < length x) xs"
  using that
proof (induction xs arbitrary: ws)
  case Nil
  then show ?case by simp
next
  case (Cons x xs)
  then show ?case by (cases ws) (auto simp: add_divide_distrib mult.commute)
qed

text \<open>
  C4, as the code has it. The denominator is \<^verbatim>\<open>torch.sum(weights + self.eps)\<close>: the sum
  of the rectified weights plus \<open>eps\<close> once for every weight, \<open>n * eps\<close> in all. With
  element values, a node whose inputs \<open>xs\<close> are all present with \<open>m\<close> elements each
  returns, at every position, the sum of \<open>relu w * x\<close> over that denominator. The
  effective weights are not negative, and they add up to \<open>1 - n * eps / denominator\<close>;
  when some weight is positive that difference from 1 is at most \<open>n * eps\<close> over the sum
  of the rectified weights, so it vanishes with \<open>eps\<close>.
\<close>

theorem fuse_weighted_sum:
  assumes "0 < eps cl"
    and "length (weights cl) = length (offsets cl)"
    and "map (od_get nodes) (offsets cl) = map Inr xs"
    and "xs \<noteq> []"
    and "list_all (\<lambda>x. length x = m) xs"
  shows "norm_denominator cl
           = sum_list (map relu (weights cl)) + real (length (weights cl)) * eps cl
       \<and> fuse (elements p) cl nodes
           = Inr (map (\<lambda>j. (\<Sum>(x, w)\<leftarrow>zip xs (weights cl). relu w * (x ! j)) / norm_denominator cl)
                      [0..<m])
       \<and> list_all (\<lambda>e. 0 \<le> e) (effective_weights cl)
       \<and> sum_list (effective_weights cl)
           = 1 - real (length (weights cl)) * eps cl / norm_denominator cl
       \<and> (0 < sum_list (map relu (weights cl)) \<longrightarrow>
            1 - sum_list (effective_weights cl)
              \<le> real (length (weights cl)) * eps cl / sum_list (map relu (weights cl)))"
proof -
  let ?ws = "weights cl" and ?D = "norm_denominator cl"
  let ?S = "sum_list (map relu ?ws)"
  have len: "length xs = length ?ws"
    using assms(2,3) by (metis length_map)
  then have ws_ne: "?ws \<noteq> []" using assms(4) by auto
  have D: "?D = ?S + real (length ?ws) * eps cl" by (rule norm_denominator_eq)
  have Dpos: "0 < ?D"
    using sum_relu_nonneg[of ?ws] assms(1) ws_ne
    by (simp add: D add_nonneg_pos)
  let ?ts = "map2 (\<lambda>x w. map (\<lambda>v. v * relu w / ?D) x) xs ?ws"
  have wt: "weighted_terms (elements p) cl nodes 0 (offsets cl) = Inr ?ts"
    using weighted_terms_elements[OF assms(3), of 0 cl p] assms(2) by simp
  have ts_ne: "?ts \<noteq> []" using assms(4) ws_ne by (cases xs; cases ?ws) auto
  have ts_len: "list_all (\<lambda>t. length t = m) ?ts"
    using assms(5) by (auto simp: list_all_iff dest!: set_zip_leftD)
  have "fuse (elements p) cl nodes = Inr (map (\<lambda>j. \<Sum>t\<leftarrow>?ts. t ! j) [0..<m])"
    using wt vec_stack_sum[OF ts_ne ts_len] by (simp add: fuse_def elements_def)
  also have "map (\<lambda>j. \<Sum>t\<leftarrow>?ts. t ! j) [0..<m]
      = map (\<lambda>j. (\<Sum>(x, w)\<leftarrow>zip xs ?ws. relu w * (x ! j)) / ?D) [0..<m]"
  proof (rule map_cong[OF refl])
    fix j assume "j \<in> set [0..<m]"
    then have "list_all (\<lambda>x. j < length x) xs"
      using assms(5) by (auto simp: list_all_iff)
    then show "(\<Sum>t\<leftarrow>?ts. t ! j) = (\<Sum>(x, w)\<leftarrow>zip xs ?ws. relu w * (x ! j)) / ?D"
      by (rule sum_list_map2_div)
  qed
  finally have out: "fuse (elements p) cl nodes
      = Inr (map (\<lambda>j. (\<Sum>(x, w)\<leftarrow>zip xs ?ws. relu w * (x ! j)) / ?D) [0..<m])" .
  have nonneg: "list_all (\<lambda>e. 0 \<le> e) (effective_weights cl)"
    using Dpos by (auto simp: effective_weights_def list_all_iff relu_nonneg)
  have "sum_list (map (\<lambda>w. relu w / d) vs) = sum_list (map relu vs) / d" for vs and d :: real
    by (induction vs) (auto simp: add_divide_distrib)
  then have sum_eff: "sum_list (effective_weights cl) = ?S / ?D"
    by (simp add: effective_weights_def)
  have "?S / ?D = 1 - real (length ?ws) * eps cl / ?D"
    using Dpos D by (simp add: field_simps)
  with sum_eff have total: "sum_list (effective_weights cl) = 1 - real (length ?ws) * eps cl / ?D"
    by simp
  have bound: "1 - sum_list (effective_weights cl) \<le> real (length ?ws) * eps cl / ?S" if "0 < ?S"
  proof -
    have "?S \<le> ?D" using assms(1) by (simp add: D)
    then have "real (length ?ws) * eps cl / ?D \<le> real (length ?ws) * eps cl / ?S"
      using that assms(1) by (intro divide_left_mono) (auto intro: mult_pos_pos Dpos)
    then show ?thesis by (simp add: total)
  qed
  show ?thesis using D out nonneg total bound by blast
qed

theorem fuse_weighted_sum_witness:
  "norm_denominator scenario_node = 2 + 2 * (1 / 10000)
   \<and> fuse (elements pass_through) scenario_node [(6, [1, 2]), (7, [3, 4])] = Inr [20000 / 10001, 30000 / 10001]
   \<and> sum_list (effective_weights scenario_node) = 10000 / 10001"
proof -
  have h1: "0 < eps scenario_node"
    by (simp add: scenario_node_def CombineLevels_init_def)
  have h2: "length (weights scenario_node) = length (offsets scenario_node)"
    by (simp add: scenario_node_def CombineLevels_init_def)
  have h3: "map (od_get [(6, [1, 2]), (7, [3, 4 :: real])]) (offsets scenario_node)
      = map Inr [[1, 2], [3, 4]]"
    by (simp add: scenario_node_def CombineLevels_init_def od_get_def)
  have h4: "[[1, 2], [3, 4 :: real]] \<noteq> []" by simp
  have h5: "list_all (\<lambda>x. length x = 2) [[1, 2], [3, 4 :: real]]" by simp
  show ?thesis
    using fuse_weighted_sum[OF h1 h2 h3 h4 h5, where p = "pass_through"]
    by (simp add: scenario_node_def CombineLevels_init_def fuse_def elements_def od_get_def
        norm_denominator_def relu_def effective_weights_def)
qed








section \<open>Determinism (C8)\<close>


section \<open>Output levels and channels (C6)\<close>




























end
